theory Spec2Isabelle
  imports Complex_Main "HOL-Library.Word" "HOL-Library.Sublist"
begin

section \<open>Cliques of a Bayes tree (BayesTreeCliqueBase-inst.h)\<close>

text \<open>
  The class template \<^verbatim>\<open>BayesTreeCliqueBaseUnordered<DERIVED, FACTORGRAPH, BAYESNET>\<close>
  is embedded with two type parameters: \<open>'c\<close> is the conditional type
  (\<^verbatim>\<open>ConditionalType\<close>) and \<open>'f\<close> the factor type (\<^verbatim>\<open>FactorType\<close>); a factor graph
  is a list of factors.

  A clique owns its children (a list of shared pointers, never shared between two
  parents), so the children are nested in the datatype. A pointer to a clique
  (\<^verbatim>\<open>derived_ptr\<close>, \<^verbatim>\<open>derived_weak_ptr\<close>) is the position of the clique in the
  owning tree: the child indices leading from the top clique to it. The weak parent
  pointer \<^verbatim>\<open>parent_\<close> is a field holding such a position or nothing; it is
  resolved against the tree when it is locked, and it may be absent or dangling.
  The fields keep the names of the members \<^verbatim>\<open>conditional_\<close>, \<^verbatim>\<open>parent_\<close>,
  \<^verbatim>\<open>children\<close> and \<^verbatim>\<open>cachedSeparatorMarginal_\<close>, without the trailing underscore.
\<close>

type_synonym key = nat
type_synonym ptr = "nat list"
type_synonym size_t = "64 word"

datatype ('c, 'f) clique = Clique
  (conditional: "'c option")
  (parent: "ptr option")
  (children: "('c, 'f) clique list")
  (cachedSeparatorMarginal: "'f list option")

text \<open>
  Dereferencing a null \<^verbatim>\<open>boost::shared_ptr\<close> is undefined behaviour (an assertion
  failure in debug builds); the embedding makes it an outcome of its own. The other two
  outcomes are the errors that the specification gives the separator-marginal query:
  a failure reported by the external elimination capability, and a malformed tree.
\<close>

datatype error = NullPointerDereference | EliminationFailure | MalformedTree

subsection \<open>equals and print\<close>

text \<open>
  \<^verbatim>\<open>return (!conditional_ && !other.conditional())
      || conditional_->equals(*other.conditional(), tol);\<close>
  The first argument is the conditional type's own \<^verbatim>\<open>equals\<close>. When the left
  disjunct is false the right one dereferences both conditionals.
\<close>

definition equals ::
  "('c \<Rightarrow> 'c \<Rightarrow> real \<Rightarrow> bool) \<Rightarrow> ('c, 'f) clique \<Rightarrow> ('c, 'f) clique \<Rightarrow> real \<Rightarrow> error + bool" where
  "equals cond_equals this other tol =
     (if conditional this = None \<and> conditional other = None then Inr True
      else (case conditional this of
              None \<Rightarrow> Inl NullPointerDereference
            | Some c \<Rightarrow>
                (case conditional other of
                   None \<Rightarrow> Inl NullPointerDereference
                 | Some d \<Rightarrow> Inr (cond_equals c d tol))))"

text \<open>
  \<^verbatim>\<open>conditional_->print(s, keyFormatter);\<close>
  The first argument is the conditional type's own \<^verbatim>\<open>print\<close>, as the text it
  writes to the output stream.
\<close>

definition print ::
  "('c \<Rightarrow> string \<Rightarrow> (key \<Rightarrow> string) \<Rightarrow> string) \<Rightarrow> ('c, 'f) clique \<Rightarrow> string \<Rightarrow> (key \<Rightarrow> string)
     \<Rightarrow> error + string" where
  "print cond_print this s keyFormatter =
     (case conditional this of
        None \<Rightarrow> Inl NullPointerDereference
      | Some c \<Rightarrow> Inr (cond_print c s keyFormatter))"

subsection \<open>treeSize, numCachedSeparatorMarginals, deleteCachedShortcuts\<close>

text \<open>
  \<^verbatim>\<open>size_t size = 1;
  BOOST_FOREACH(const derived_ptr& child, children)
    size += child->treeSize();
  return size;\<close>
  The counter is a \<^verbatim>\<open>size_t\<close>: the additions are additions of 64-bit words.
\<close>

fun treeSize :: "('c, 'f) clique \<Rightarrow> size_t" where
  "treeSize (Clique cond par chs cache) =
     fold (\<lambda>child size. size + treeSize child) chs 1"

text \<open>
  \<^verbatim>\<open>if (!cachedSeparatorMarginal_)
    return 0;
  size_t subtree_count = 1;
  BOOST_FOREACH(const derived_ptr& child, children)
    subtree_count += child->numCachedSeparatorMarginals();
  return subtree_count;\<close>
\<close>

fun numCachedSeparatorMarginals :: "('c, 'f) clique \<Rightarrow> size_t" where
  "numCachedSeparatorMarginals (Clique cond par chs cache) =
     (case cache of
        None \<Rightarrow> 0
      | Some m \<Rightarrow>
          fold (\<lambda>child subtree_count. subtree_count + numCachedSeparatorMarginals child) chs 1)"

text \<open>
  \<^verbatim>\<open>if (cachedSeparatorMarginal_) {
    BOOST_FOREACH(derived_ptr& child, children) {
      child->deleteCachedShortcuts();
    }
    cachedSeparatorMarginal_ = boost::none;
  }\<close>
  The method mutates the clique it is called on; the embedding returns the clique
  after the call.
\<close>

fun deleteCachedShortcuts :: "('c, 'f) clique \<Rightarrow> ('c, 'f) clique" where
  "deleteCachedShortcuts (Clique cond par chs cache) =
     (case cache of
        None \<Rightarrow> Clique cond par chs cache
      | Some m \<Rightarrow> Clique cond par (map deleteCachedShortcuts chs) None)"

text \<open>
  The two counting methods once more, as methods that may act on the object they are
  called on: the result is the counter together with the clique after the call, and
  the loop hands each child on as the call on it has left it. The bodies are the same;
  neither assigns to a member.
\<close>

fun treeSize_st :: "('c, 'f) clique \<Rightarrow> size_t \<times> ('c, 'f) clique" where
  "treeSize_st (Clique cond par chs cache) =
     (case fold (\<lambda>child (size, visited).
                   (case treeSize_st child of (k, child') \<Rightarrow> (size + k, visited @ [child'])))
             chs (1, []) of
        (n, chs') \<Rightarrow> (n, Clique cond par chs' cache))"

fun numCachedSeparatorMarginals_st :: "('c, 'f) clique \<Rightarrow> size_t \<times> ('c, 'f) clique" where
  "numCachedSeparatorMarginals_st (Clique cond par chs cache) =
     (case cache of
        None \<Rightarrow> (0, Clique cond par chs cache)
      | Some m \<Rightarrow>
          (case fold (\<lambda>child (subtree_count, visited).
                        (case numCachedSeparatorMarginals_st child of
                           (k, child') \<Rightarrow> (subtree_count + k, visited @ [child'])))
                  chs (1, []) of
             (n, chs') \<Rightarrow> (n, Clique cond par chs' cache)))"

subsection \<open>The tree as the store of its cliques\<close>

text \<open>\<open>deref t p\<close> is the clique that the pointer \<open>p\<close> designates in the tree \<open>t\<close>,
  if there is one.\<close>

fun deref :: "('c, 'f) clique \<Rightarrow> ptr \<Rightarrow> ('c, 'f) clique option" where
  "deref t [] = Some t"
| "deref t (i # p) = (if i < length (children t) then deref (children t ! i) p else None)"

text \<open>\<open>apply_at g t p\<close> is the tree after a mutating method \<open>g\<close> has run on the
  clique at \<open>p\<close>.\<close>

fun apply_at :: "(('c, 'f) clique \<Rightarrow> ('c, 'f) clique) \<Rightarrow> ('c, 'f) clique \<Rightarrow> ptr \<Rightarrow> ('c, 'f) clique" where
  "apply_at g t [] = g t"
| "apply_at g t (i # p) =
     (if i < length (children t)
      then Clique (conditional t) (parent t)
             ((children t)[i := apply_at g (children t ! i) p]) (cachedSeparatorMarginal t)
      else t)"

text \<open>The assignment \<^verbatim>\<open>cachedSeparatorMarginal_ = v\<close> in the clique at \<open>p\<close>.\<close>

definition set_cache :: "'f list option \<Rightarrow> ('c, 'f) clique \<Rightarrow> ('c, 'f) clique" where
  "set_cache v c = Clique (conditional c) (parent c) (children c) v"

definition assign_cache :: "('c, 'f) clique \<Rightarrow> ptr \<Rightarrow> 'f list option \<Rightarrow> ('c, 'f) clique" where
  "assign_cache t p v = apply_at (set_cache v) t p"

text \<open>\<^verbatim>\<open>parent_.lock()\<close>: the parent pointer, or null when the weak pointer is
  empty or the clique it designated is gone.\<close>

definition lock :: "('c, 'f) clique \<Rightarrow> ('c, 'f) clique \<Rightarrow> ptr option" where
  "lock t c =
     (case parent c of
        None \<Rightarrow> None
      | Some p \<Rightarrow> (case deref t p of None \<Rightarrow> None | Some pc \<Rightarrow> Some p))"

subsection \<open>Observations on a tree\<close>

text \<open>\<open>cached t p\<close> is the cached separator marginal of the clique at \<open>p\<close>; it is
  \<open>None\<close> when the cache is absent (and when \<open>p\<close> designates no clique).\<close>

definition cached :: "('c, 'f) clique \<Rightarrow> ptr \<Rightarrow> 'f list option" where
  "cached t p = (case deref t p of None \<Rightarrow> None | Some c \<Rightarrow> cachedSeparatorMarginal c)"

text \<open>The clique at \<open>p\<close> exists and its conditional is not null.\<close>

definition has_conditional :: "('c, 'f) clique \<Rightarrow> ptr \<Rightarrow> bool" where
  "has_conditional t p = (Option.bind (deref t p) conditional \<noteq> None)"

text \<open>\<open>strip t\<close> forgets every cache of \<open>t\<close>: two trees with the same \<open>strip\<close> have
  the same cliques, with the same conditionals, parent pointers and children, and
  differ at most in caches.\<close>

fun strip :: "('c, 'f) clique \<Rightarrow> ('c, 'f) clique" where
  "strip (Clique cond par chs cache) = Clique cond par (map strip chs) None"

text \<open>The state that the comment in \<^verbatim>\<open>deleteCachedShortcuts\<close> relies on ("when a
  shortcut is requested, all of the shortcuts between it and the root are also
  generated"): below the clique, a populated cache sits under a populated cache.\<close>

fun caches_closed :: "('c, 'f) clique \<Rightarrow> bool" where
  "caches_closed (Clique cond par chs cache) =
     (\<forall>ch \<in> set chs. (cachedSeparatorMarginal ch \<noteq> None \<longrightarrow> cache \<noteq> None) \<and> caches_closed ch)"



subsection \<open>The separator-marginal query\<close>

text \<open>
  Modelled from the spec: the separator-marginal query \<open>separatorMarginal\<close> of section
  4.3, which the program does not have (the source file holds a body of
  \<^verbatim>\<open>separatorMarginal\<close> only as a commented-out block, and none of the solver it names).
  The model follows the specification's words.

  The conditional and elimination capabilities are the specification's external
  collaborators (section 6) and are parameters:
  \<^item> \<open>toFactor\<close> converts a conditional to a factor;
  \<^item> \<open>parents\<close> gives the separator keys of a conditional, in order;
  \<^item> \<open>eliminate factors keep\<close> marginalizes the factors down to the variables
    \<open>keep\<close>, in that order, the renumbering before and after included; it yields the
    marginal, or nothing when the capability reports a failure.
\<close>

record ('c, 'f) capability =
  toFactor :: "'c \<Rightarrow> 'f"
  parents :: "'c \<Rightarrow> key list"
  eliminate :: "'f list \<Rightarrow> key list \<Rightarrow> 'f list option"

text \<open>
  The state is the tree together with a ghost counter of the calls of \<open>eliminate\<close>
  made so far.
\<close>

type_synonym ('c, 'f) state = "('c, 'f) clique \<times> nat"

text \<open>
  Modelled from the spec: the rest of steps 3 to 5 of section 4.3, once the request on
  the parent \<open>par\<close> has ended with \<open>(r, t1, n1)\<close>.
  \<^item> A failure of the request on the parent propagates unchanged (section 7).
  \<^item> Step 3: the factor form of the parent's conditional is appended to the parent's
    separator marginal. A clique without a conditional is not a well-formed operational
    clique (section 3); the model reports it as a malformed tree.
  \<^item> Step 4: the joint is marginalized down to the separator of \<open>this\<close>. A failure of
    the elimination is propagated and nothing is cached for it (section 7).
  \<^item> Step 5: the result is stored in the cache of \<open>this\<close> and returned.
\<close>

definition finish ::
  "('c, 'f) capability \<Rightarrow> ptr \<Rightarrow> ptr \<Rightarrow> (error + 'f list) \<times> ('c, 'f) state
     \<Rightarrow> (error + 'f list) \<times> ('c, 'f) state" where
  "finish env this par = (\<lambda>(r, t1, n1).
     (case r of
        Inl e \<Rightarrow> (Inl e, t1, n1)
      | Inr p_Sp \<Rightarrow>
          (case Option.bind (deref t1 par) conditional of
             None \<Rightarrow> (Inl MalformedTree, t1, n1)
           | Some p_Fp_Sp \<Rightarrow>
               (case Option.bind (deref t1 this) conditional of
                  None \<Rightarrow> (Inl MalformedTree, t1, n1)
                | Some p_F_S \<Rightarrow>
                    (case eliminate env (p_Sp @ [toFactor env p_Fp_Sp]) (parents env p_F_S) of
                       None \<Rightarrow> (Inl EliminationFailure, t1, Suc n1)
                     | Some m \<Rightarrow> (Inr m, assign_cache t1 this (Some m), Suc n1))))))"

text \<open>
  Modelled from the spec: the algorithm of section 4.3 for the request \<open>(this, R)\<close>.
  \<^item> Step 1: if \<open>this\<close> is \<open>R\<close>, the result is the empty factor collection; no
    elimination is attempted. The specification does not say whether step 5 applies to
    this result as well (section 9 calls a cached empty collection "the root case",
    section 8 has the root "treated specially"): \<open>store_at_R\<close> says whether the empty
    result is stored in the cache of \<open>R\<close> when that cache is absent, and what is proved
    below holds for both values.
  \<^item> Step 2: else, if the cache of \<open>this\<close> is present, it is returned directly.
  \<^item> Step 3: else the parent reference is resolved; a clique that is not \<open>R\<close> and
    whose parent reference is absent or expired is a malformed tree, reported as an
    error. Otherwise the request is made on the parent, relative to \<open>R\<close>, and
    \<open>finish\<close> does the rest.
  A pointer that designates no clique is reported as a malformed tree too. The recursion
  follows the parent references, which need not lead to \<open>R\<close>: a request that does not
  return has the value \<open>None\<close>.
\<close>

partial_function (option) separatorMarginal ::
  "bool \<Rightarrow> ('c, 'f) capability \<Rightarrow> ptr \<Rightarrow> ptr \<Rightarrow> ('c, 'f) state
     \<Rightarrow> ((error + 'f list) \<times> ('c, 'f) state) option" where
  "separatorMarginal store_at_R env this R st =
     (if this = R
      then Some (Inr [],
                 (if store_at_R \<and> cached (fst st) R = None
                  then assign_cache (fst st) R (Some []) else fst st),
                 snd st)
      else
        (case deref (fst st) this of
           None \<Rightarrow> Some (Inl MalformedTree, st)
         | Some c \<Rightarrow>
             (case cachedSeparatorMarginal c of
                Some m \<Rightarrow> Some (Inr m, st)
              | None \<Rightarrow>
                  (case lock (fst st) c of
                     None \<Rightarrow> Some (Inl MalformedTree, st)
                   | Some par \<Rightarrow>
                       Option.bind (separatorMarginal store_at_R env par R st)
                         (\<lambda>res. Some (finish env this par res))))))"

declare separatorMarginal.simps [code]

subsection \<open>Example trees\<close>

text \<open>
  In the examples a conditional is a frontal key with its separator keys, a factor is
  the list of keys it mentions, and eliminating down to the keys \<open>keep\<close> yields the
  one factor on \<open>keep\<close>.
\<close>

definition env0 :: "(nat \<times> nat list, nat list) capability" where
  "env0 = \<lparr>toFactor = (\<lambda>(f, S). f # S), parents = (\<lambda>(f, S). S),
           eliminate = (\<lambda>factors keep. Some [keep])\<rparr>"

text \<open>An elimination capability that always reports a failure.\<close>

definition env_failing :: "(nat \<times> nat list, nat list) capability" where
  "env_failing = \<lparr>toFactor = (\<lambda>(f, S). f # S), parents = (\<lambda>(f, S). S),
                  eliminate = (\<lambda>factors keep. None)\<rparr>"

text \<open>The chain root, A, B, C: \<open>P(x0)\<close>, \<open>P(x1 | x0)\<close>, \<open>P(x2 | x1)\<close>, \<open>P(x3 | x2)\<close>,
  no cache populated. The root is at \<open>[]\<close>, A at \<open>[0]\<close>, B at \<open>[0, 0]\<close>, C at
  \<open>[0, 0, 0]\<close>.\<close>

definition cliqueC :: "(nat \<times> nat list, nat list) clique" where
  "cliqueC = Clique (Some (3, [2])) (Some [0, 0]) [] None"

definition cliqueB :: "(nat \<times> nat list, nat list) clique" where
  "cliqueB = Clique (Some (2, [1])) (Some [0]) [cliqueC] None"

definition cliqueA :: "(nat \<times> nat list, nat list) clique" where
  "cliqueA = Clique (Some (1, [0])) (Some []) [cliqueB] None"

definition chain :: "(nat \<times> nat list, nat list) clique" where
  "chain = Clique (Some (0, [])) None [cliqueA] None"

text \<open>The chain with the caches of A and B populated, as a request for B relative to
  the root leaves them.\<close>

definition chain_upto_B :: "(nat \<times> nat list, nat list) clique" where
  "chain_upto_B = assign_cache (assign_cache chain [0] (Some [[0]])) [0, 0] (Some [[1]])"

text \<open>The chain with the caches of B and C populated, as a request for C relative to
  A leaves them when the empty result at A is not stored.\<close>

definition chain_below_A :: "(nat \<times> nat list, nat list) clique" where
  "chain_below_A = assign_cache (assign_cache chain [0, 0] (Some [[1]])) [0, 0, 0] (Some [[2]])"

text \<open>A tree whose top clique is in the placeholder state.\<close>

definition headless :: "(nat \<times> nat list, nat list) clique" where
  "headless = Clique None None [Clique (Some (1, [0])) (Some []) [] None] None"

text \<open>A clique in the placeholder state: no conditional.\<close>

definition placeholder :: "(nat \<times> nat list, nat list) clique" where
  "placeholder = Clique None None [] None"

text \<open>A clique without cache over a child with a cache; a clique with a cache over
  a first child without cache (which has a child with a cache) and a second child with
  a cache; and a tree whose populated caches are closed upwards.\<close>

definition uncached_over_cached :: "(nat \<times> nat list, nat list) clique" where
  "uncached_over_cached =
     Clique (Some (0, [])) None [Clique (Some (1, [0])) (Some []) [] (Some [[0]])] None"

definition cached_over_gap :: "(nat \<times> nat list, nat list) clique" where
  "cached_over_gap =
     Clique (Some (0, [])) None
       [Clique (Some (1, [0])) (Some [])
          [Clique (Some (2, [1])) (Some [0]) [] (Some [[1]])] None,
        Clique (Some (3, [0])) (Some []) [] (Some [[0]])]
       (Some [])"

definition cached_family :: "(nat \<times> nat list, nat list) clique" where
  "cached_family =
     Clique (Some (0, [])) None
       [Clique (Some (1, [0])) (Some [])
          [Clique (Some (2, [1])) (Some [0]) [] None] (Some [[0]]),
        Clique (Some (3, [0])) (Some []) [] None]
       (Some [])"


section \<open>Properties\<close>

subsection \<open>Auxiliary facts\<close>

lemma fold_add_sum_list:
  fixes a :: "'a::monoid_add"
  shows "fold (\<lambda>x acc. acc + f x) xs a = a + sum_list (map f xs)"
  by (induction xs arbitrary: a) (simp_all add: add.assoc)

lemma strip_sel [simp]:
  "conditional (strip c) = conditional c"
  "parent (strip c) = parent c"
  "children (strip c) = map strip (children c)"
  "cachedSeparatorMarginal (strip c) = None"
  by (cases c; simp)+

lemma strip_set_cache [simp]: "strip (set_cache v c) = strip c"
  by (cases c) (simp add: set_cache_def)

lemma strip_deleteCachedShortcuts: "strip (deleteCachedShortcuts c) = strip c"
  by (induction c) (simp split: option.splits)

lemma strip_apply_at:
  assumes "\<And>c. strip (g c) = strip c"
  shows "strip (apply_at g t p) = strip t"
proof (induction p arbitrary: t)
  case Nil
  show ?case by (simp add: assms)
next
  case (Cons i p)
  show ?case
  proof (cases "i < length (children t)")
    case True
    have "(map strip (children t))[i := strip (apply_at g (children t ! i) p)] = map strip (children t)"
      using True by (simp add: Cons.IH list_update_same_conv)
    then show ?thesis using True by (cases t) (simp add: map_update)
  next
    case False
    then show ?thesis by simp
  qed
qed

lemma deref_strip: "deref (strip t) p = map_option strip (deref t p)"
  by (induction p arbitrary: t) simp_all

lemma strip_eq_deref:
  assumes "strip t' = strip t"
  shows "map_option strip (deref t' p) = map_option strip (deref t p)"
  using deref_strip [of t' p] deref_strip [of t p] assms by simp

lemma deref_apply_at_same:
  "deref t p = Some c \<Longrightarrow> deref (apply_at g t p) p = Some (g c)"
  by (induction p arbitrary: t) (auto split: if_splits)

lemma deref_apply_at_outside:
  "\<not> prefix p q \<Longrightarrow>
   map_option cachedSeparatorMarginal (deref (apply_at g t p) q) =
   map_option cachedSeparatorMarginal (deref t q)"
proof (induction p arbitrary: t q)
  case Nil
  then show ?case by simp
next
  case (Cons i p)
  show ?case
  proof (cases q)
    case Nil
    then show ?thesis by simp
  next
    case (Cons j q')
    show ?thesis
    proof (cases "j = i")
      case True
      with Cons Cons.prems have "\<not> prefix p q'" by simp
      from Cons.IH [OF this] show ?thesis using Cons True by simp
    next
      case False
      then show ?thesis using Cons by simp
    qed
  qed
qed

lemma strip_eq_fields:
  assumes "strip t' = strip t"
  shows "map_option conditional (deref t' q) = map_option conditional (deref t q)"
    and "map_option parent (deref t' q) = map_option parent (deref t q)"
    and "map_option (\<lambda>c. length (children c)) (deref t' q) =
         map_option (\<lambda>c. length (children c)) (deref t q)"
proof -
  have c: "map_option conditional x = map_option conditional (map_option strip x)"
    and p: "map_option parent x = map_option parent (map_option strip x)"
    and l: "map_option (\<lambda>c. length (children c)) x =
            map_option (\<lambda>c. length (children c)) (map_option strip x)"
    for x :: "('a, 'b) clique option"
    by (cases x; simp)+
  note e = strip_eq_deref [OF assms, of q]
  show "map_option conditional (deref t' q) = map_option conditional (deref t q)"
    using c [of "deref t' q"] c [of "deref t q"] e by simp
  show "map_option parent (deref t' q) = map_option parent (deref t q)"
    using p [of "deref t' q"] p [of "deref t q"] e by simp
  show "map_option (\<lambda>c. length (children c)) (deref t' q) =
         map_option (\<lambda>c. length (children c)) (deref t q)"
    using l [of "deref t' q"] l [of "deref t q"] e by simp
qed

subsection \<open>treeSize\<close>

text \<open>
  C8. For every clique \<open>C\<close>, \<open>treeSize C\<close> is 1 plus the sum of \<open>treeSize\<close> over
  the children of \<open>C\<close>, and it is 1 for a clique without children. The sum is a sum
  of \<^verbatim>\<open>size_t\<close> values, as in the code.
\<close>

theorem treeSize_children:
  "treeSize C = 1 + sum_list (map treeSize (children C)) \<and>
   (children C = [] \<longrightarrow> treeSize C = 1)"
  by (cases C) (simp add: fold_add_sum_list)

theorem treeSize_children_witness:
  "children cliqueC = [] \<and> treeSize cliqueC = 1 \<and>
   treeSize chain = 1 + sum_list (map treeSize (children chain)) \<and> treeSize chain = 4"
  using treeSize_children [of cliqueC] treeSize_children [of chain]
  by (simp add: cliqueC_def cliqueB_def cliqueA_def chain_def)

subsection \<open>numCachedSeparatorMarginals\<close>

text \<open>
  C5. For every clique \<open>C\<close>, \<open>numCachedSeparatorMarginals C\<close> is 0 when the cache of
  \<open>C\<close> is absent, whatever the children are and hold; otherwise it is 1 plus the sum
  of \<open>numCachedSeparatorMarginals\<close> over all the children of \<open>C\<close>, those without a
  cache included (each of them contributes 0).
\<close>

theorem numCachedSeparatorMarginals_cases:
  "(cachedSeparatorMarginal C = None \<longrightarrow> numCachedSeparatorMarginals C = 0) \<and>
   (cachedSeparatorMarginal C \<noteq> None \<longrightarrow>
      numCachedSeparatorMarginals C =
        1 + sum_list (map numCachedSeparatorMarginals (children C)))"
  by (cases C) (auto simp add: fold_add_sum_list)

theorem numCachedSeparatorMarginals_cases_witness:
  "cachedSeparatorMarginal uncached_over_cached = None \<and>
   cached uncached_over_cached [0] = Some [[0]] \<and>
   numCachedSeparatorMarginals uncached_over_cached = 0 \<and>
   cachedSeparatorMarginal cached_over_gap \<noteq> None \<and>
   numCachedSeparatorMarginals cached_over_gap =
     1 + sum_list (map numCachedSeparatorMarginals (children cached_over_gap)) \<and>
   map numCachedSeparatorMarginals (children cached_over_gap) = [0, 1] \<and>
   numCachedSeparatorMarginals cached_over_gap = 2"
  using numCachedSeparatorMarginals_cases [of uncached_over_cached]
    numCachedSeparatorMarginals_cases [of cached_over_gap]
  by (simp add: uncached_over_cached_def cached_over_gap_def cached_def)

subsection \<open>deleteCachedShortcuts\<close>

lemma cachedSeparatorMarginal_deleteCachedShortcuts:
  "cachedSeparatorMarginal (deleteCachedShortcuts C) = None"
  by (cases C) (simp split: option.splits)

lemma caches_closed_all_absent:
  "caches_closed C \<Longrightarrow> cachedSeparatorMarginal C = None \<Longrightarrow> deref C p = Some d
     \<Longrightarrow> cachedSeparatorMarginal d = None"
proof (induction p arbitrary: C)
  case Nil
  then show ?case by simp
next
  case (Cons i p)
  from Cons.prems(3) have i: "i < length (children C)" and d: "deref (children C ! i) p = Some d"
    by (auto split: if_splits)
  from i have mem: "children C ! i \<in> set (children C)" by simp
  from Cons.prems(1,2) mem have "caches_closed (children C ! i)"
    and "cachedSeparatorMarginal (children C ! i) = None"
    by (cases C; auto)+
  from Cons.IH [OF this d] show ?case .
qed

lemma deleteCachedShortcuts_clears:
  "caches_closed C \<Longrightarrow> deref C p = Some d
     \<Longrightarrow> \<exists>d'. deref (deleteCachedShortcuts C) p = Some d' \<and> cachedSeparatorMarginal d' = None"
proof (induction p arbitrary: C d)
  case Nil
  then show ?case by (simp add: cachedSeparatorMarginal_deleteCachedShortcuts)
next
  case (Cons i p)
  from Cons.prems(2) have i: "i < length (children C)" and d: "deref (children C ! i) p = Some d"
    by (auto split: if_splits)
  from i have mem: "children C ! i \<in> set (children C)" by simp
  from Cons.prems(1) mem have cl: "caches_closed (children C ! i)"
    by (cases C) auto
  show ?case
  proof (cases "cachedSeparatorMarginal C")
    case None
    then have same: "deleteCachedShortcuts C = C" by (cases C) simp
    from Cons.prems(1) None mem have "cachedSeparatorMarginal (children C ! i) = None"
      by (cases C) auto
    from caches_closed_all_absent [OF cl this d] show ?thesis
      using same Cons.prems(2) by simp
  next
    case (Some m)
    then have "children (deleteCachedShortcuts C) = map deleteCachedShortcuts (children C)"
      by (cases C) simp
    with i Cons.IH [OF cl d] show ?thesis by simp
  qed
qed

text \<open>
  C4, as amended. For every clique \<open>C\<close>: when the cache of \<open>C\<close> is absent,
  \<open>deleteCachedShortcuts\<close> leaves \<open>C\<close> and everything below it as it was (children
  with a populated cache keep it); when it is present, the call runs on every child
  and then clears the cache of \<open>C\<close>. Afterwards \<open>numCachedSeparatorMarginals C\<close> is 0.
  If at and below \<open>C\<close> every populated cache sits under a populated cache
  (\<open>caches_closed\<close>), every clique at or below \<open>C\<close> has an absent cache afterwards.
\<close>

theorem deleteCachedShortcuts_clears_subtree:
  "(cachedSeparatorMarginal C = None \<longrightarrow> deleteCachedShortcuts C = C) \<and>
   (cachedSeparatorMarginal C \<noteq> None \<longrightarrow>
      deleteCachedShortcuts C =
        Clique (conditional C) (parent C) (map deleteCachedShortcuts (children C)) None) \<and>
   numCachedSeparatorMarginals (deleteCachedShortcuts C) = 0 \<and>
   (caches_closed C \<longrightarrow>
      (\<forall>p d. deref C p = Some d \<longrightarrow>
         (\<exists>d'. deref (deleteCachedShortcuts C) p = Some d' \<and> cachedSeparatorMarginal d' = None)))"
proof (intro conjI impI allI)
  show "deleteCachedShortcuts C = C" if "cachedSeparatorMarginal C = None"
    using that by (cases C) simp
  show "deleteCachedShortcuts C =
      Clique (conditional C) (parent C) (map deleteCachedShortcuts (children C)) None"
    if "cachedSeparatorMarginal C \<noteq> None"
    using that by (cases C) auto
  show "numCachedSeparatorMarginals (deleteCachedShortcuts C) = 0"
    by (cases C) (simp split: option.splits)
  show "\<exists>d'. deref (deleteCachedShortcuts C) p = Some d' \<and> cachedSeparatorMarginal d' = None"
    if "caches_closed C" and "deref C p = Some d" for p d
    using that by (rule deleteCachedShortcuts_clears)
qed

theorem deleteCachedShortcuts_clears_subtree_witness:
  "cachedSeparatorMarginal uncached_over_cached = None \<and>
   deleteCachedShortcuts uncached_over_cached = uncached_over_cached \<and>
   cached (deleteCachedShortcuts uncached_over_cached) [0] = Some [[0]] \<and>
   cachedSeparatorMarginal cached_family \<noteq> None \<and> caches_closed cached_family \<and>
   cached cached_family [0] = Some [[0]] \<and>
   deleteCachedShortcuts cached_family =
     Clique (conditional cached_family) (parent cached_family)
       (map deleteCachedShortcuts (children cached_family)) None \<and>
   numCachedSeparatorMarginals (deleteCachedShortcuts cached_family) = 0 \<and>
   cached (deleteCachedShortcuts cached_family) [] = None \<and>
   cached (deleteCachedShortcuts cached_family) [0] = None \<and>
   deref (deleteCachedShortcuts cached_family) [0, 0] = deref cached_family [0, 0]"
  using deleteCachedShortcuts_clears_subtree [of uncached_over_cached]
    deleteCachedShortcuts_clears_subtree [of cached_family]
  by (simp add: uncached_over_cached_def cached_family_def cached_def)

subsection \<open>What the three tree walks leave unchanged\<close>

lemma fold_st:
  assumes "\<And>child. child \<in> set chs \<Longrightarrow> f_st child = (f child, child)"
  shows "fold (\<lambda>child (acc, visited). (case f_st child of (k, child') \<Rightarrow> (acc + k, visited @ [child'])))
           chs (a, pre) =
         (fold (\<lambda>child (acc :: size_t). acc + f child) chs a, pre @ chs)"
  using assms by (induction chs arbitrary: a pre) simp_all

lemma treeSize_st_eq: "treeSize_st C = (treeSize C, C)"
proof (induction C)
  case (Clique cond par chs cache)
  then show ?case using fold_st [of chs treeSize_st treeSize 1 "[]"] by simp
qed

lemma numCachedSeparatorMarginals_st_eq:
  "numCachedSeparatorMarginals_st C = (numCachedSeparatorMarginals C, C)"
proof (induction C)
  case (Clique cond par chs cache)
  then show ?case
    using fold_st [of chs numCachedSeparatorMarginals_st numCachedSeparatorMarginals 1 "[]"]
    by (simp split: option.splits)
qed

text \<open>
  C9. Run as methods that hand back the clique they were called on, \<open>treeSize\<close> and
  \<open>numCachedSeparatorMarginals\<close> return the counter and the clique exactly as it
  was, caches included. \<open>deleteCachedShortcuts\<close> changes caches only: the clique after
  the call and the clique before it are the same once the caches are forgotten. For
  the call on the clique at \<open>this\<close> of a tree \<open>t\<close>, every pointer \<open>q\<close> designates a
  clique after the call exactly when it did before, with the same conditional (the
  frontal keys are read from it), the same parent pointer and the same number of
  children; and the cache of a clique that is not \<open>this\<close> or below it is unchanged.
\<close>

theorem counting_and_invalidation_frame:
  "treeSize_st C = (treeSize C, C) \<and>
   numCachedSeparatorMarginals_st C = (numCachedSeparatorMarginals C, C) \<and>
   strip (deleteCachedShortcuts C) = strip C \<and>
   map_option conditional (deref (apply_at deleteCachedShortcuts t this) q) =
     map_option conditional (deref t q) \<and>
   map_option parent (deref (apply_at deleteCachedShortcuts t this) q) =
     map_option parent (deref t q) \<and>
   map_option (\<lambda>c. length (children c)) (deref (apply_at deleteCachedShortcuts t this) q) =
     map_option (\<lambda>c. length (children c)) (deref t q) \<and>
   (\<not> prefix this q \<longrightarrow>
      map_option cachedSeparatorMarginal (deref (apply_at deleteCachedShortcuts t this) q) =
        map_option cachedSeparatorMarginal (deref t q))"
proof -
  have "strip (apply_at deleteCachedShortcuts t this) = strip t"
    by (rule strip_apply_at) (rule strip_deleteCachedShortcuts)
  from strip_eq_fields [OF this, of q] deref_apply_at_outside [of this q deleteCachedShortcuts t]
    treeSize_st_eq [of C] numCachedSeparatorMarginals_st_eq [of C]
    strip_deleteCachedShortcuts [of C]
  show ?thesis by blast
qed

theorem counting_and_invalidation_frame_witness:
  "treeSize_st cached_over_gap = (4, cached_over_gap) \<and>
   numCachedSeparatorMarginals_st cached_over_gap = (2, cached_over_gap) \<and>
   deleteCachedShortcuts cached_over_gap \<noteq> cached_over_gap \<and>
   strip (deleteCachedShortcuts cached_over_gap) = strip cached_over_gap \<and>
   cached cached_over_gap [1] = Some [[0]] \<and>
   cached (apply_at deleteCachedShortcuts cached_over_gap [1]) [1] = None \<and>
   map_option conditional (deref (apply_at deleteCachedShortcuts cached_over_gap [1]) [1]) =
     Some (Some (3, [0])) \<and>
   map_option parent (deref (apply_at deleteCachedShortcuts cached_over_gap [1]) [1]) =
     Some (Some []) \<and>
   \<not> prefix [1::nat] [0, 0] \<and>
   map_option cachedSeparatorMarginal (deref (apply_at deleteCachedShortcuts cached_over_gap [1]) [0, 0]) =
     Some (Some [[1]]) \<and>
   map_option conditional (deref (apply_at deleteCachedShortcuts cached_over_gap [1]) [0, 0]) =
     map_option conditional (deref cached_over_gap [0, 0])"
  using counting_and_invalidation_frame [of cached_over_gap cached_over_gap "[1]" "[0, 0]"]
    counting_and_invalidation_frame [of cached_over_gap cached_over_gap "[1]" "[1]"]
  by (simp add: cached_over_gap_def cached_def)

subsection \<open>print and equals\<close>

text \<open>
  C10. \<open>print\<close> dereferences the conditional without a check: on a clique whose
  conditional is null the call is a null pointer dereference and nothing else, and on
  a clique with a conditional it is the conditional's own \<open>print\<close>.
\<close>

theorem print_dereferences_conditional:
  "(conditional C = None \<longrightarrow> print cond_print C s keyFormatter = Inl NullPointerDereference) \<and>
   (\<forall>c. conditional C = Some c \<longrightarrow>
      print cond_print C s keyFormatter = Inr (cond_print c s keyFormatter))"
  by (simp add: print_def)

theorem print_dereferences_conditional_witness:
  "conditional placeholder = None \<and>
   print (\<lambda>c s kf. s @ kf (fst c)) placeholder ''P'' (\<lambda>k. ''x'') = Inl NullPointerDereference \<and>
   conditional cliqueC = Some (3, [2]) \<and>
   print (\<lambda>c s kf. s @ kf (fst c)) cliqueC ''P'' (\<lambda>k. ''x'') = Inr ''Px''"
  using print_dereferences_conditional
      [of placeholder "\<lambda>c s kf. s @ kf (fst c)" "''P''" "\<lambda>k. ''x''"]
    print_dereferences_conditional [of cliqueC "\<lambda>c s kf. s @ kf (fst c)" "''P''" "\<lambda>k. ''x''"]
  by (simp add: cliqueC_def placeholder_def)

lemma equals_cases:
  "equals cond_equals C D tol =
     (case (conditional C, conditional D) of
        (None, None) \<Rightarrow> Inr True
      | (Some c, Some d) \<Rightarrow> Inr (cond_equals c d tol)
      | _ \<Rightarrow> Inl NullPointerDereference)"
  by (simp add: equals_def split: option.splits)

text \<open>
  C7. When exactly one of the two cliques lacks a conditional, \<open>equals\<close> does not
  return false: the right disjunct dereferences the null conditional, whichever side
  it is on. (When both lack a conditional the result is true, and when both have one
  it is the conditionals' own comparison: \<open>equals_cases\<close>.)
\<close>

theorem equals_one_conditional_missing:
  "equals (\<lambda>c d tol. c = d) placeholder cliqueC 0 = Inl NullPointerDereference \<and>
   equals (\<lambda>c d tol. c = d) cliqueC placeholder 0 = Inl NullPointerDereference"
  by (simp add: equals_def cliqueC_def placeholder_def)

subsection \<open>The separator-marginal query: the cases of the definition\<close>

lemma cached_assign_cache_same:
  "deref t p \<noteq> None \<Longrightarrow> cached (assign_cache t p v) p = v"
  by (auto simp: cached_def assign_cache_def deref_apply_at_same set_cache_def)

lemma apply_at_invalid: "deref t p = None \<Longrightarrow> apply_at g t p = t"
proof (induction p arbitrary: t)
  case Nil
  then show ?case by simp
next
  case (Cons i p)
  show ?case
  proof (cases "i < length (children t)")
    case True
    with Cons.prems have "deref (children t ! i) p = None" by simp
    from Cons.IH [OF this] True show ?thesis by (cases t) simp
  next
    case False
    then show ?thesis by simp
  qed
qed

lemma strip_assign_cache [simp]: "strip (assign_cache t p v) = strip t"
  unfolding assign_cache_def by (rule strip_apply_at) simp







lemma separatorMarginal_at_R:
  "separatorMarginal store_at_R env R R (t, n) =
     Some (Inr [],
           (if store_at_R \<and> cached t R = None then assign_cache t R (Some []) else t), n)"
  by (subst separatorMarginal.simps) simp

lemma separatorMarginal_hit:
  "this \<noteq> R \<Longrightarrow> deref t this = Some c \<Longrightarrow> cachedSeparatorMarginal c = Some m
     \<Longrightarrow> separatorMarginal store_at_R env this R (t, n) = Some (Inr m, t, n)"
  by (subst separatorMarginal.simps) simp

lemma separatorMarginal_no_clique:
  "this \<noteq> R \<Longrightarrow> deref t this = None
     \<Longrightarrow> separatorMarginal store_at_R env this R (t, n) = Some (Inl MalformedTree, t, n)"
  by (subst separatorMarginal.simps) simp

lemma separatorMarginal_no_parent:
  "this \<noteq> R \<Longrightarrow> deref t this = Some c \<Longrightarrow> cachedSeparatorMarginal c = None
     \<Longrightarrow> lock t c = None
     \<Longrightarrow> separatorMarginal store_at_R env this R (t, n) = Some (Inl MalformedTree, t, n)"
  by (subst separatorMarginal.simps) simp

lemma separatorMarginal_miss:
  "this \<noteq> R \<Longrightarrow> deref t this = Some c \<Longrightarrow> cachedSeparatorMarginal c = None
     \<Longrightarrow> lock t c = Some par
     \<Longrightarrow> separatorMarginal store_at_R env this R (t, n) =
         map_option (finish env this par) (separatorMarginal store_at_R env par R (t, n))"
  by (subst separatorMarginal.simps)
    (cases "separatorMarginal store_at_R env par R (t, n)"; simp)

lemma finish_cases:
  assumes "finish env this par (r1, t1, n1) = (r, t', n')"
  shows "(\<exists>e. r = Inl e \<and> t' = t1 \<and> (r1 = Inl e \<or> e = EliminationFailure \<or>
            (e = MalformedTree \<and> (Option.bind (deref t1 par) conditional = None \<or>
                                    Option.bind (deref t1 this) conditional = None)))) \<or>
         (\<exists>m. r = Inr m \<and> t' = assign_cache t1 this (Some m) \<and> n' = Suc n1 \<and>
            deref t1 this \<noteq> None \<and> (\<exists>m1. r1 = Inr m1))"
  using assms
  by (auto simp: finish_def bind_eq_Some_conv split: sum.splits option.splits)

lemma at_R_twice:
  "(if b \<and> cached (if b \<and> cached t R = None then assign_cache t R (Some x) else t) R = None
    then assign_cache (if b \<and> cached t R = None then assign_cache t R (Some x) else t) R (Some x)
    else (if b \<and> cached t R = None then assign_cache t R (Some x) else t)) =
   (if b \<and> cached t R = None then assign_cache t R (Some x) else t)"
proof (cases "deref t R")
  case None
  then show ?thesis by (simp add: assign_cache_def apply_at_invalid)
next
  case (Some c)
  then have "cached (assign_cache t R (Some x)) R = Some x" by (simp add: cached_assign_cache_same)
  then show ?thesis by auto
qed

lemma separatorMarginal_result_cached:
  assumes "separatorMarginal store_at_R env this R (t, n) = Some (Inr m, t', n')"
    and "this \<noteq> R"
  shows "cached t' this = Some m"
proof (cases "deref t this")
  case None
  with assms separatorMarginal_no_clique [OF assms(2) None, of store_at_R env n]
  show ?thesis by simp
next
  case (Some c)
  note c = this
  show ?thesis
  proof (cases "cachedSeparatorMarginal c")
    case (Some m0)
    with separatorMarginal_hit [OF assms(2) c Some, of store_at_R env n] assms(1)
    show ?thesis using c by (simp add: cached_def)
  next
    case None
    note miss = this
    show ?thesis
    proof (cases "lock t c")
      case None
      with separatorMarginal_no_parent [OF assms(2) c miss None, of store_at_R env n] assms(1)
      show ?thesis by simp
    next
      case (Some par)
      from separatorMarginal_miss [OF assms(2) c miss Some, of store_at_R env n] assms(1)
      obtain r1 t1 n1 where "finish env this par (r1, t1, n1) = (Inr m, t', n')"
        by (cases "separatorMarginal store_at_R env par R (t, n)") auto
      from finish_cases [OF this] show ?thesis
        by (auto simp: cached_assign_cache_same)
    qed
  qed
qed

subsection \<open>A request along the path to the reference clique\<close>


lemmas chain_defs = chain_def cliqueA_def cliqueB_def cliqueC_def
lemmas store_defs = lock_def assign_cache_def set_cache_def cached_def has_conditional_def
lemmas query_defs = separatorMarginal.simps finish_def




subsection \<open>A request at the reference clique\<close>

text \<open>
  C2. For every clique \<open>R\<close> and in every state, the request \<open>(R, R)\<close> returns the
  empty factor collection, whatever the cache of \<open>R\<close> holds and whatever the
  elimination capability is, and the counter of elimination calls is unchanged: the
  elimination is never invoked.
\<close>

theorem separatorMarginal_at_reference:
  "separatorMarginal store_at_R env R R (t, n) =
     Some (Inr [],
           (if store_at_R \<and> cached t R = None then assign_cache t R (Some []) else t), n)"
  by (rule separatorMarginal_at_R)

theorem separatorMarginal_at_reference_witness:
  "separatorMarginal False env0 [0] [0] (chain_upto_B, 2) = Some (Inr [], chain_upto_B, 2) \<and>
   separatorMarginal True env0 [0] [0] (chain_upto_B, 2) = Some (Inr [], chain_upto_B, 2) \<and>
   cached chain_upto_B [0] = Some [[0]] \<and>
   separatorMarginal False env_failing [] [] (chain, 0) = Some (Inr [], chain, 0) \<and>
   separatorMarginal True env_failing [] [] (chain, 0) =
     Some (Inr [], assign_cache chain [] (Some []), 0)"
  using separatorMarginal_at_reference [of False env0 "[0]" chain_upto_B 2]
    separatorMarginal_at_reference [of True env0 "[0]" chain_upto_B 2]
    separatorMarginal_at_reference [of False env_failing "[]" chain 0]
    separatorMarginal_at_reference [of True env_failing "[]" chain 0]
  by (simp add: chain_upto_B_def chain_defs store_defs)

subsection \<open>Idempotence\<close>

text \<open>
  C3, as amended. If a request for \<open>(C, R)\<close> returns the marginal \<open>m\<close>, the same
  request made again in the state it left returns the same \<open>m\<close> (equal, hence equal
  within any tolerance), calls no elimination and leaves the state as it is. And a
  cache hit, a request for a clique \<open>C\<close> other than \<open>R\<close> whose cache is populated,
  returns the cache and changes no clique.
\<close>

theorem separatorMarginal_idempotent:
  "(separatorMarginal store_at_R env C R (t, n) = Some (Inr m, t', n') \<longrightarrow>
      separatorMarginal store_at_R env C R (t', n') = Some (Inr m, t', n')) \<and>
   (C \<noteq> R \<and> cached t C = Some m \<longrightarrow>
      separatorMarginal store_at_R env C R (t, n) = Some (Inr m, t, n))"
proof (intro conjI impI)
  have hit: "separatorMarginal store_at_R env C R (s, k) = Some (Inr m, s, k)"
    if "C \<noteq> R" and "cached s C = Some m" for s k
  proof -
    from that(2) obtain c where "deref s C = Some c" and "cachedSeparatorMarginal c = Some m"
      by (auto simp: cached_def split: option.splits)
    with that(1) show ?thesis by (simp add: separatorMarginal_hit)
  qed
  show "separatorMarginal store_at_R env C R (t, n) = Some (Inr m, t, n)"
    if "C \<noteq> R \<and> cached t C = Some m"
    using that hit by simp
  show "separatorMarginal store_at_R env C R (t', n') = Some (Inr m, t', n')"
    if first: "separatorMarginal store_at_R env C R (t, n) = Some (Inr m, t', n')"
  proof (cases "C = R")
    case True
    let ?u = "if store_at_R \<and> cached t R = None then assign_cache t R (Some []) else t"
    from first have m: "m = []" and n': "n' = n" and t': "t' = ?u"
      unfolding True separatorMarginal_at_R by simp_all
    have "separatorMarginal store_at_R env R R (?u, n) =
        Some (Inr [],
          (if store_at_R \<and> cached ?u R = None then assign_cache ?u R (Some []) else ?u), n)"
      by (rule separatorMarginal_at_R)
    also have "(if store_at_R \<and> cached ?u R = None then assign_cache ?u R (Some []) else ?u) = ?u"
      by (rule at_R_twice)
    finally show ?thesis unfolding True m n' t' .
  next
    case False
    from separatorMarginal_result_cached [OF first False] show ?thesis
      using hit [OF False] by simp
  qed
qed

theorem separatorMarginal_idempotent_witness:
  "separatorMarginal False env0 [0, 0] [] (chain, 0) = Some (Inr [[1]], chain_upto_B, 2) \<and>
   separatorMarginal False env0 [0, 0] [] (chain_upto_B, 2) = Some (Inr [[1]], chain_upto_B, 2) \<and>
   [0] \<noteq> ([] :: nat list) \<and> cached cached_family [0] = Some [[0]] \<and>
   separatorMarginal True env0 [0] [] (cached_family, 7) = Some (Inr [[0]], cached_family, 7)"
proof -
  have first: "separatorMarginal False env0 [0, 0] [] (chain, 0) = Some (Inr [[1]], chain_upto_B, 2)"
    by (simp add: query_defs env0_def chain_upto_B_def chain_defs store_defs)
  have hit: "cached cached_family [0] = Some [[0]]"
    by (simp add: cached_family_def cached_def)
  from separatorMarginal_idempotent [of False env0 "[0, 0]" "[]" chain 0 "[[1]]" chain_upto_B 2] first
    separatorMarginal_idempotent [of True env0 "[0]" "[]" cached_family 7 "[[0]]"] hit
  show ?thesis by simp
qed

text \<open>
  Without the assumption that the first request returns a marginal the property fails:
  when the elimination capability reports a failure, nothing is cached at the clique,
  and the second request for the same \<open>(C, R)\<close> calls the elimination again (the
  counter goes from 1 to 2). And a populated cache is returned by step 2 only, for a
  clique other than \<open>R\<close>: the request \<open>(A, A)\<close> returns the empty collection when the
  cache of A holds a factor.
\<close>

theorem separatorMarginal_failed_twice:
  "separatorMarginal False env_failing [0] [] (chain, 0) = Some (Inl EliminationFailure, chain, 1) \<and>
   separatorMarginal False env_failing [0] [] (chain, 1) = Some (Inl EliminationFailure, chain, 2) \<and>
   separatorMarginal True env_failing [0] [] (chain, 0) =
     Some (Inl EliminationFailure, assign_cache chain [] (Some []), 1) \<and>
   separatorMarginal True env_failing [0] [] (assign_cache chain [] (Some []), 1) =
     Some (Inl EliminationFailure, assign_cache chain [] (Some []), 2) \<and>
   cached chain_upto_B [0] = Some [[0]] \<and>
   separatorMarginal False env0 [0] [0] (chain_upto_B, 2) = Some (Inr [], chain_upto_B, 2) \<and>
   separatorMarginal True env0 [0] [0] (chain_upto_B, 2) = Some (Inr [], chain_upto_B, 2)"
  by (simp add: query_defs env_failing_def env0_def chain_upto_B_def chain_defs store_defs)

subsection \<open>A clique without a parent\<close>




subsection \<open>Invalidation after requests\<close>

text \<open>
  The states that requests produce need not have their populated caches closed
  upwards. On the chain with no cache populated, the one request \<open>(C, A)\<close> populates
  the caches of C and B (and of A, when the result at the reference clique is stored)
  and not that of the root; \<open>deleteCachedShortcuts\<close> on the root then finds the cache
  absent, does nothing, and the caches of B and C stay populated.
\<close>

theorem deleteCachedShortcuts_leaves_caches:
  "separatorMarginal False env0 [0, 0, 0] [0] (chain, 0) = Some (Inr [[2]], chain_below_A, 2) \<and>
   deleteCachedShortcuts chain_below_A = chain_below_A \<and>
   cached (deleteCachedShortcuts chain_below_A) [0, 0] = Some [[1]] \<and>
   cached (deleteCachedShortcuts chain_below_A) [0, 0, 0] = Some [[2]] \<and>
   separatorMarginal True env0 [0, 0, 0] [0] (chain, 0) =
     Some (Inr [[2]],
       assign_cache (assign_cache (assign_cache chain [0] (Some [])) [0, 0] (Some [[1]]))
         [0, 0, 0] (Some [[2]]), 2) \<and>
   cached (deleteCachedShortcuts
       (assign_cache (assign_cache (assign_cache chain [0] (Some [])) [0, 0] (Some [[1]]))
         [0, 0, 0] (Some [[2]]))) [0, 0] = Some [[1]]"
  by (simp add: query_defs env0_def chain_below_A_def chain_defs store_defs)

text \<open>A request that meets a clique without a conditional.\<close>

lemma separatorMarginal_null_conditional_example:
  "separatorMarginal False env0 [0] [] (headless, 0) = Some (Inl MalformedTree, headless, 0)"
  by (simp add: query_defs env0_def headless_def store_defs)

end
